theory Spec2Isabelle
  imports Main "HOL-Library.Word"
begin

section \<open>Data model of the zone layer\<close>

text \<open>
  Modelled from the spec: the \<open>ResultCode\<close> enumeration. Its declaration is not part of
  \<open>napa-zone.cpp\<close>, which only names \<open>NAPA_RESULT_SUCCESS\<close>; the remaining codes are the
  ones listed for \<open>Result\<close> in the data model of the specification.
\<close>

datatype ResultCode =
    NAPA_RESULT_SUCCESS
  | NAPA_RESULT_TIMEOUT
  | NAPA_RESULT_EXECUTION_ERROR
  | NAPA_RESULT_MODULE_NOT_FOUND
  | NAPA_RESULT_FUNCTION_NOT_FOUND
  | NAPA_RESULT_BROADCAST_SCRIPT_ERROR
  | NAPA_RESULT_ZONE_NOT_FOUND
  | NAPA_RESULT_INTERNAL_ERROR

record Result =
  code :: ResultCode
  payload :: string

text \<open>
  \<open>settings::ZoneSettings\<close> and \<open>FunctionSpec\<close> are declared outside \<open>napa-zone.cpp\<close>;
  the records hold the fields it reads. The worker count initialises a
  \<open>std::atomic<uint32_t>\<close> and bounds a \<open>WorkerId\<close> loop, and the timeout is compared
  with zero and turned into milliseconds: all three are unsigned 32-bit values.
\<close>

type_synonym WorkerId = "32 word"

record ZoneSettings =
  id' :: string
  workers :: "32 word"

record CallOptions =
  timeout :: "32 word"

record FunctionSpec =
  module :: string
  function' :: string
  arguments :: string
  options :: CallOptions

text \<open>
  Callbacks are \<open>std::function<void(Result)>\<close> values. A callback handed in by a caller
  is opaque and named by a number; running it is recorded in the process's \<open>invoked\<close> log.
  The two \<open>callOnce\<close> lambdas of \<open>napa-zone.cpp\<close> are closures over a shared counter
  (named by its address in the counter store): the one of \<open>NapaZone::Broadcast\<close> also
  captures the caller's callback, the one of the constructor captures the promise.
\<close>

datatype Callback =
    UserCallback nat
  | callOnce_Broadcast nat Callback
  | callOnce_NapaZone nat

record CallContext =
  spec :: FunctionSpec
  callback :: Callback

datatype Task =
    EvalTask string string Callback
  | CallTask CallContext
  | TimeoutTaskDecorator "32 word" Task

text \<open>
  The \<open>Scheduler\<close> class is outside \<open>napa-zone.cpp\<close>; the zone only calls it. It is
  modelled by the sequence of calls it has received, oldest first.
\<close>

datatype sched_call =
    Schedule Task
  | ScheduleOnWorker WorkerId Task
  | ScheduleOnAllWorkers Task

record NapaZone =
  z_settings :: ZoneSettings
  z_scheduler :: "sched_call list"

text \<open>
  The control block of a \<open>std::shared_ptr<NapaZone>\<close>: the number of strong references
  and the object. A block whose count has reached zero stays in the heap for as long as a
  \<open>std::weak_ptr\<close> names it; the zone it held is destroyed.
\<close>

record ctrl =
  use_count :: nat
  obj :: NapaZone

text \<open>
  The state of the process: the static registry \<open>NapaZone::_zones\<close> (a weak pointer is
  the address of a control block), the heap of control blocks, the store of shared atomic
  counters, the promise of the constructor that is running, the log of caller callbacks
  that have run, and the static \<open>BOOTSTRAP_SOURCE\<close>.
\<close>

record process =
  zones :: "string \<rightharpoonup> nat"
  heap :: "nat \<rightharpoonup> ctrl"
  next_addr :: nat
  counters :: "nat \<rightharpoonup> 32 word"
  next_counter :: nat
  promise :: "ResultCode option"
  invoked :: "(nat \<times> Result) list"
  BOOTSTRAP_SOURCE :: string

text \<open>
  What a call does to the calling thread: it returns a value and leaves a state, or the
  process is terminated by a failed \<open>NAPA_ASSERT\<close>, or the thread waits for ever.
\<close>

datatype 'a outcome = Returned 'a process | Aborted | Blocked

section \<open>Smart pointers\<close>

definition expired :: "(nat \<rightharpoonup> ctrl) \<Rightarrow> nat \<Rightarrow> bool" where
  "expired h w = (case h w of None \<Rightarrow> True | Some c \<Rightarrow> use_count c = 0)"

definition lock :: "nat \<Rightarrow> (nat \<rightharpoonup> ctrl) \<Rightarrow> nat option \<times> (nat \<rightharpoonup> ctrl)" where
  "lock w h =
     (case h w of
        None \<Rightarrow> (None, h)
      | Some c \<Rightarrow>
          if use_count c = 0 then (None, h)
          else (Some w, h(w \<mapsto> c\<lparr>use_count := use_count c + 1\<rparr>)))"

text \<open>
  Dropping one strong reference. When the last one goes the zone is destroyed; neither the
  destructor nor anything else in \<open>napa-zone.cpp\<close> touches \<open>_zones\<close> at that moment.
\<close>

definition release :: "nat \<Rightarrow> process \<Rightarrow> process" where
  "release a p =
     (case heap p a of
        None \<Rightarrow> p
      | Some c \<Rightarrow>
          if use_count c = 0 then p
          else p\<lparr>heap := (heap p)(a \<mapsto> c\<lparr>use_count := use_count c - 1\<rparr>)\<rparr>)"

section \<open>Completion callbacks\<close>

text \<open>
  Running a callback with a \<open>Result\<close>. Both \<open>callOnce\<close> lambdas pre-decrement the shared
  counter and act only when the new value is zero.
\<close>

fun invoke :: "Callback \<Rightarrow> Result \<Rightarrow> process \<Rightarrow> process" where
  "invoke (UserCallback k) r p = p\<lparr>invoked := invoked p @ [(k, r)]\<rparr>"
| "invoke (callOnce_Broadcast c cb) r p =
     (case counters p c of
        None \<Rightarrow> p
      | Some n \<Rightarrow>
          let p' = p\<lparr>counters := (counters p)(c \<mapsto> n - 1)\<rparr>
          in if n - 1 = 0 then invoke cb r p' else p')"
| "invoke (callOnce_NapaZone c) r p =
     (case counters p c of
        None \<Rightarrow> p
      | Some n \<Rightarrow>
          let p' = p\<lparr>counters := (counters p)(c \<mapsto> n - 1)\<rparr>
          in if n - 1 = 0 then p'\<lparr>promise := Some (code r)\<rparr> else p')"

section \<open>The constructor\<close>

text \<open>
  \<open>NapaZone::NapaZone\<close>. The scheduler is created, the counter is allocated with the
  worker count, the bootstrap \<open>EvalTask\<close> is scheduled on all workers, and the thread
  waits on the future. \<open>acks\<close> is what the workers do meanwhile: the results with which
  they run the task's callback, in the order in which they finish. While the promise has
  no value \<open>future.get()\<close> does not return.

  Modelled from the spec: the macro \<open>NAPA_ASSERT\<close>, defined outside the sources. A false
  condition is fatal: the process is aborted.
\<close>

definition NapaZone_ctor :: "ZoneSettings \<Rightarrow> Result list \<Rightarrow> process \<Rightarrow> NapaZone outcome" where
  "NapaZone_ctor settings acks p =
     (let p1 = p\<lparr>promise := None\<rparr>;
          c = next_counter p1;
          p2 = p1\<lparr>counters := (counters p1)(c \<mapsto> workers settings),
                  next_counter := c + 1\<rparr>;
          callOnce = callOnce_NapaZone c;
          bootstrapTask = EvalTask (BOOTSTRAP_SOURCE p2) '''' callOnce;
          sch = [ScheduleOnAllWorkers bootstrapTask];
          p3 = foldl (\<lambda>q r. invoke callOnce r q) p2 acks
      in case promise p3 of
           None \<Rightarrow> Blocked
         | Some rc \<Rightarrow>
             if rc = NAPA_RESULT_SUCCESS
             then Returned \<lparr>z_settings = settings, z_scheduler = sch\<rparr> p3
             else Aborted)"

section \<open>The registry\<close>

definition Create :: "ZoneSettings \<Rightarrow> Result list \<Rightarrow> process \<Rightarrow> nat option outcome" where
  "Create settings acks p =
     (if (case zones p (id' settings) of
            None \<Rightarrow> False
          | Some w \<Rightarrow> \<not> expired (heap p) w)
      then Returned None p
      else
        (case NapaZone_ctor settings acks p of
           Blocked \<Rightarrow> Blocked
         | Aborted \<Rightarrow> Aborted
         | Returned z q \<Rightarrow>
             let zone = next_addr q
             in Returned (Some zone)
                  (q\<lparr>heap := (heap q)(zone \<mapsto> \<lparr>use_count = 1, obj = z\<rparr>),
                     next_addr := zone + 1,
                     zones := (zones q)(id' settings \<mapsto> zone)\<rparr>)))"

definition Get :: "string \<Rightarrow> process \<Rightarrow> nat option \<times> process" where
  "Get k p =
     (case zones p k of
        None \<Rightarrow> (None, p)
      | Some w \<Rightarrow>
          (case lock w (heap p) of
             (None, h) \<Rightarrow> (None, p\<lparr>heap := h, zones := (zones p)(k := None)\<rparr>)
           | (Some zone, h) \<Rightarrow> (Some zone, p\<lparr>heap := h\<rparr>)))"

section \<open>Submitting work to a zone\<close>

text \<open>
  The loop of \<open>NapaZone::Broadcast\<close>: \<open>for (WorkerId id = 0; id < _settings.workers; id++)\<close>,
  with the 32-bit loop variable and the scheduler's call sequence as accumulator.
\<close>

function Broadcast_loop ::
  "FunctionSpec \<Rightarrow> Callback \<Rightarrow> 32 word \<Rightarrow> WorkerId \<Rightarrow> sched_call list \<Rightarrow> sched_call list" where
  "Broadcast_loop spc callOnce n i sch =
     (if i < n then
        let task =
              (if 0 < timeout (options spc)
               then TimeoutTaskDecorator (timeout (options spc))
                      (CallTask \<lparr>spec = spc, callback = callOnce\<rparr>)
               else CallTask \<lparr>spec = spc, callback = callOnce\<rparr>)
        in Broadcast_loop spc callOnce n (i + 1) (sch @ [ScheduleOnWorker i task])
      else sch)"
  by pat_completeness auto
termination
proof (relation "measure (\<lambda>(spc, callOnce, n, i, sch). unat n - unat i)")
  show "wf (measure (\<lambda>(spc, callOnce, n, i, sch). unat n - unat i))"
    by simp
next
  fix spc :: FunctionSpec and callOnce :: Callback and n i :: "32 word"
    and sch :: "sched_call list" and task :: Task
  assume less: "i < n"
  then have below: "unat i < unat n"
    by (simp add: word_less_nat_alt)
  moreover have "unat n < 2 ^ 32"
    using unsigned_less [of n, where 'a = nat] by simp
  moreover have "unat (i + 1) = (unat i + 1) mod 2 ^ 32"
    by (simp add: unat_word_ariths)
  ultimately have "unat (i + 1) = Suc (unat i)"
    by simp
  with below show "((spc, callOnce, n, i + 1, sch @ [ScheduleOnWorker i task]),
                    (spc, callOnce, n, i, sch))
                   \<in> measure (\<lambda>(spc, callOnce, n, i, sch). unat n - unat i)"
    by simp
qed

text \<open>The equation of the loop is unfolded by hand, never by the simplifier.\<close>

declare Broadcast_loop.simps [simp del]

definition Broadcast :: "FunctionSpec \<Rightarrow> Callback \<Rightarrow> NapaZone \<Rightarrow> process \<Rightarrow> NapaZone \<times> process" where
  "Broadcast spc cb z p =
     (let c = next_counter p;
          p' = p\<lparr>counters := (counters p)(c \<mapsto> workers (z_settings z)),
                 next_counter := c + 1\<rparr>;
          callOnce = callOnce_Broadcast c cb
      in (z\<lparr>z_scheduler :=
               Broadcast_loop spc callOnce (workers (z_settings z)) 0 (z_scheduler z)\<rparr>,
          p'))"

definition Execute :: "FunctionSpec \<Rightarrow> Callback \<Rightarrow> NapaZone \<Rightarrow> NapaZone" where
  "Execute spc cb z =
     (let task =
            (if 0 < timeout (options spc)
             then TimeoutTaskDecorator (timeout (options spc))
                    (CallTask \<lparr>spec = spc, callback = cb\<rparr>)
             else CallTask \<lparr>spec = spc, callback = cb\<rparr>)
      in z\<lparr>z_scheduler := z_scheduler z @ [Schedule task]\<rparr>)"

text \<open>
  Modelled from the spec: how a scheduled task ends. \<open>CallTask\<close>, \<open>CallContext\<close> and the
  timeout decorator are outside \<open>napa-zone.cpp\<close>; by their contract the completion
  callback of the context is run exactly once, with the result of whichever agent
  finishes first. \<open>complete\<close> is that single run.
\<close>

fun complete :: "Task \<Rightarrow> Result \<Rightarrow> process \<Rightarrow> process" where
  "complete (EvalTask src origin cb) r p = invoke cb r p"
| "complete (CallTask ctx) r p = invoke (callback ctx) r p"
| "complete (TimeoutTaskDecorator d t) r p = complete t r p"

text \<open>
  Modelled from the spec: the queue of one worker, as the scheduler's contract gives it.
  \<open>ScheduleOnWorker\<close> puts the task on the named worker's queue, \<open>ScheduleOnAllWorkers\<close>
  on every queue; where \<open>Schedule\<close> puts a task is the scheduler's choice and is left out.
\<close>

fun queue_of :: "WorkerId \<Rightarrow> sched_call list \<Rightarrow> Task list" where
  "queue_of i [] = []"
| "queue_of i (Schedule t # cs) = queue_of i cs"
| "queue_of i (ScheduleOnWorker j t # cs) = (if i = j then t # queue_of i cs else queue_of i cs)"
| "queue_of i (ScheduleOnAllWorkers t # cs) = t # queue_of i cs"

text \<open>
  The workers finish their tasks in some order: each entry names a worker and the result
  of the task that is first in its queue.
\<close>

fun run_completions :: "(WorkerId \<times> Result) list \<Rightarrow> sched_call list \<Rightarrow> process \<Rightarrow> process" where
  "run_completions [] sch p = p"
| "run_completions ((i, r) # cs) sch p =
     (case queue_of i sch of
        [] \<Rightarrow> run_completions cs sch p
      | t # ts \<Rightarrow> run_completions cs sch (complete t r p))"

section \<open>The deserializer\<close>

text \<open>
  \<open>SerializedData\<close> as \<open>Deserializer::ReadValue\<close> reads it: the list of stored
  shared-array-buffer contents, each a pair of the buffer's \<open>Contents\<close> (data pointer and
  byte length) and the shared pointer to its externalized contents.
\<close>

record Contents =
  Data :: nat
  ByteLength :: nat

record SerializedData =
  shared_array_buffer_contents :: "(Contents \<times> nat) list"

text \<open>
  A \<open>SharedArrayBuffer\<close> made by \<open>SharedArrayBuffer::New\<close>, with the value of its
  \<open>_externalized\<close> property.
\<close>

record SharedArrayBuffer =
  sab_data :: nat
  sab_byte_length :: nat
  externalized :: "nat option"

text \<open>
  V8's \<open>ValueDeserializer\<close> is outside the repository: the model keeps the calls it
  receives, and takes as parameters what it answers to \<open>ReadHeader\<close> (a \<open>Maybe<bool>\<close>)
  and to \<open>ReadValue\<close> (a \<open>MaybeLocal<Value>\<close>).
\<close>

datatype v8_call =
    ReadHeader
  | TransferSharedArrayBuffer "32 word" SharedArrayBuffer
  | ReadValue

fun transfer_loop :: "32 word \<Rightarrow> (Contents \<times> nat) list \<Rightarrow> v8_call list \<Rightarrow> v8_call list" where
  "transfer_loop index [] calls = calls"
| "transfer_loop index (contents # rest) calls =
     (let shared_array_buffer =
            \<lparr>sab_data = Data (fst contents), sab_byte_length = ByteLength (fst contents),
             externalized = None\<rparr>;
          sharedPtrWrap = snd contents;
          shared_array_buffer = shared_array_buffer\<lparr>externalized := Some sharedPtrWrap\<rparr>
      in transfer_loop (index + 1) rest
           (calls @ [TransferSharedArrayBuffer index shared_array_buffer]))"

definition Deserializer_ReadValue ::
  "bool option \<Rightarrow> 'v option \<Rightarrow> SerializedData \<Rightarrow> v8_call list \<Rightarrow> 'v option \<times> v8_call list" where
  "Deserializer_ReadValue header body data calls =
     (let calls1 = calls @ [ReadHeader]
      in case header of
           None \<Rightarrow> (None, calls1)
         | Some read_header \<Rightarrow>
             let calls2 = transfer_loop 0 (shared_array_buffer_contents data) calls1
             in (body, calls2 @ [ReadValue]))"

section \<open>Auxiliary notions for the statements\<close>

definition initial :: "string \<Rightarrow> process" where
  "initial src =
     \<lparr>zones = Map.empty, heap = Map.empty, next_addr = 0, counters = Map.empty,
      next_counter = 0, promise = None, invoked = [], BOOTSTRAP_SOURCE = src\<rparr>"

definition live :: "string \<Rightarrow> process \<Rightarrow> bool" where
  "live k p = (case zones p k of None \<Rightarrow> False | Some w \<Rightarrow> \<not> expired (heap p) w)"

definition counts_on :: "nat \<Rightarrow> Callback \<Rightarrow> bool" where
  "counts_on c k =
     (case k of
        UserCallback u \<Rightarrow> False
      | callOnce_Broadcast c' cb \<Rightarrow> c' = c
      | callOnce_NapaZone c' \<Rightarrow> c' = c)"

datatype call = Call_Create ZoneSettings "Result list" | Call_Get string | Call_release nat

fun step :: "call \<Rightarrow> process \<Rightarrow> process option" where
  "step (Call_Create settings acks) p =
     (case Create settings acks p of Returned zone q \<Rightarrow> Some q | Aborted \<Rightarrow> None | Blocked \<Rightarrow> None)"
| "step (Call_Get k) p = Some (snd (Get k p))"
| "step (Call_release a) p = Some (release a p)"

fun run :: "call list \<Rightarrow> process \<Rightarrow> process option" where
  "run [] p = Some p"
| "run (c # cs) p = (case step c p of None \<Rightarrow> None | Some q \<Rightarrow> run cs q)"

text \<open>
  The invariant behind the round trip of a handle \<open>a\<close> registered under \<open>k\<close>: the
  address has been allocated, and for as long as its zone is alive the registry maps
  \<open>k\<close> to it.
\<close>

definition keeps :: "string \<Rightarrow> nat \<Rightarrow> process \<Rightarrow> bool" where
  "keeps k a p = (a < next_addr p \<and> (expired (heap p) a \<or> zones p k = Some a))"

text \<open>
  The task that both \<open>Broadcast\<close> and \<open>Execute\<close> build from a spec and a callback, and
  two observers of a task: whether it is wrapped in a timeout decorator, and the call
  context it carries.
\<close>

definition call_task :: "FunctionSpec \<Rightarrow> Callback \<Rightarrow> Task" where
  "call_task spc k =
     (if 0 < timeout (options spc)
      then TimeoutTaskDecorator (timeout (options spc)) (CallTask \<lparr>spec = spc, callback = k\<rparr>)
      else CallTask \<lparr>spec = spc, callback = k\<rparr>)"

fun decorated :: "Task \<Rightarrow> bool" where
  "decorated (TimeoutTaskDecorator d t) = True"
| "decorated (CallTask ctx) = False"
| "decorated (EvalTask src origin cb) = False"

fun context_of :: "Task \<Rightarrow> CallContext option" where
  "context_of (TimeoutTaskDecorator d t) = context_of t"
| "context_of (CallTask ctx) = Some ctx"
| "context_of (EvalTask src origin cb) = None"

text \<open>Concrete values for the closed instances below.\<close>

definition r_ok :: Result where
  "r_ok = \<lparr>code = NAPA_RESULT_SUCCESS, payload = ''''\<rparr>"

definition r_failed :: Result where
  "r_failed = \<lparr>code = NAPA_RESULT_EXECUTION_ERROR, payload = ''boot''\<rparr>"

definition zone_A :: ZoneSettings where
  "zone_A = \<lparr>id' = ''A'', workers = 2\<rparr>"

definition zone_B :: ZoneSettings where
  "zone_B = \<lparr>id' = ''B'', workers = 1\<rparr>"

text \<open>The process after \<open>Create\<close> of \<open>zone_A\<close> from the initial state.\<close>

definition with_A :: process where
  "with_A =
     \<lparr>zones = [''A'' \<mapsto> 0],
      heap = [0 \<mapsto> \<lparr>use_count = 1,
                    obj = \<lparr>z_settings = zone_A,
                           z_scheduler =
                             [ScheduleOnAllWorkers
                                (EvalTask ''boot.js'' '''' (callOnce_NapaZone 0))]\<rparr>\<rparr>],
      next_addr = 1,
      counters = [0 \<mapsto> 0],
      next_counter = 1,
      promise = Some NAPA_RESULT_SUCCESS,
      invoked = [],
      BOOTSTRAP_SOURCE = ''boot.js''\<rparr>"

definition busy_calls :: "call list" where
  "busy_calls =
     [Call_Get ''A'', Call_Create zone_B [r_ok], Call_release 0, Call_Get ''B'',
      Call_Create zone_A [r_failed, r_failed]]"

definition after_calls :: process where
  "after_calls = (case run busy_calls with_A of Some q \<Rightarrow> q | None \<Rightarrow> with_A)"

definition echo :: FunctionSpec where
  "echo = \<lparr>module = ''util'', function' = ''echo'', arguments = ''[1]'',
           options = \<lparr>timeout = 50\<rparr>\<rparr>"

definition the_zone :: NapaZone where
  "the_zone = \<lparr>z_settings = zone_A, z_scheduler = []\<rparr>"

lemmas example_defs =
  r_ok_def r_failed_def zone_A_def zone_B_def with_A_def initial_def live_def expired_def
  Create_def NapaZone_ctor_def

section \<open>The shared counter\<close>

lemma word_pred_nonzero: "1 < unat (n :: 32 word) \<Longrightarrow> n - 1 \<noteq> 0"
  by (metis less_irrefl right_minus_eq unat_1)

lemma unat_pred: "0 < unat (n :: 32 word) \<Longrightarrow> unat (n - 1) = unat n - 1"
  by (metis less_irrefl unat_minus_one unsigned_0)

lemma word_last_tick: "n \<noteq> 0 \<Longrightarrow> (n :: 32 word) - of_nat (unat n - 1) = 1"
proof -
  assume "n \<noteq> 0"
  then have "0 < unat n" by (simp add: unat_gt_0)
  then have "of_nat (unat n - 1) = (of_nat (unat (n - 1)) :: 32 word)"
    by (simp add: unat_pred)
  then show ?thesis by simp
qed

text \<open>While the new value of the counter is not zero, a \<open>callOnce\<close> only decrements.\<close>

lemma invoke_pending:
  "counts_on c k \<Longrightarrow> counters p c = Some n \<Longrightarrow> n - 1 \<noteq> 0 \<Longrightarrow>
   invoke k r p = p\<lparr>counters := (counters p)(c \<mapsto> n - 1)\<rparr>"
  by (cases k) (simp_all add: counts_on_def)

lemma foldl_invoke_pending:
  "counts_on c k \<Longrightarrow> counters p c = Some n \<Longrightarrow> length rs < unat n \<Longrightarrow>
   foldl (\<lambda>q r. invoke k r q) p rs =
     p\<lparr>counters := (counters p)(c \<mapsto> n - of_nat (length rs))\<rparr>"
proof (induction rs arbitrary: p n)
  case Nil
  then show ?case by (simp add: map_upd_triv)
next
  case (Cons r rs)
  let ?p' = "p\<lparr>counters := (counters p)(c \<mapsto> n - 1)\<rparr>"
  from Cons.prems have big: "1 < unat n" by simp
  then have nz: "n - 1 \<noteq> 0" by (rule word_pred_nonzero)
  have step: "invoke k r p = ?p'"
    using Cons.prems(1,2) nz by (rule invoke_pending)
  have "counters ?p' c = Some (n - 1)" by simp
  moreover have "length rs < unat (n - 1)"
    using Cons.prems(3) big by (simp add: unat_pred)
  ultimately have "foldl (\<lambda>q r. invoke k r q) ?p' rs =
      ?p'\<lparr>counters := (counters ?p')(c \<mapsto> n - 1 - of_nat (length rs))\<rparr>"
    using Cons.prems(1) by (intro Cons.IH)
  then have "foldl (\<lambda>q r. invoke k r q) ?p' rs =
      p\<lparr>counters := (counters p)(c \<mapsto> n - of_nat (length (r # rs)))\<rparr>"
    by (simp add: diff_diff_eq)
  moreover have "foldl (\<lambda>q r. invoke k r q) p (r # rs) =
      foldl (\<lambda>q r. invoke k r q) ?p' rs"
    by (simp only: foldl.simps step)
  ultimately show ?case by (simp only:)
qed

text \<open>
  With one run per unit of the counter, every run but the last only decrements, and the
  last one meets the counter at one.
\<close>

lemma foldl_invoke_all:
  assumes k: "counts_on c k" and n: "counters p c = Some n" and nz: "n \<noteq> 0"
    and len: "length rs = unat n"
  shows "foldl (\<lambda>q r. invoke k r q) p rs =
     invoke k (last rs) (p\<lparr>counters := (counters p)(c \<mapsto> 1)\<rparr>)"
proof -
  from nz have pos: "0 < unat n" by (simp add: unat_gt_0)
  with len have ne: "rs \<noteq> []" by auto
  then have split: "rs = butlast rs @ [last rs]" by simp
  have "length (butlast rs) < unat n" using len pos by simp
  with k n have "foldl (\<lambda>q r. invoke k r q) p (butlast rs) =
      p\<lparr>counters := (counters p)(c \<mapsto> n - of_nat (length (butlast rs)))\<rparr>"
    by (rule foldl_invoke_pending)
  moreover have "n - of_nat (length (butlast rs)) = 1"
    using word_last_tick [OF nz] len by simp
  ultimately have "foldl (\<lambda>q r. invoke k r q) p (butlast rs) =
      p\<lparr>counters := (counters p)(c \<mapsto> 1)\<rparr>"
    by (simp only:)
  moreover have "foldl (\<lambda>q r. invoke k r q) p rs =
      invoke k (last rs) (foldl (\<lambda>q r. invoke k r q) p (butlast rs))"
    by (subst split) (simp only: foldl_append foldl.simps)
  ultimately show ?thesis by (simp only:)
qed

lemma invoke_registry [simp]:
  "zones (invoke k r p) = zones p"
  "heap (invoke k r p) = heap p"
  "next_addr (invoke k r p) = next_addr p"
  by (induction k r p rule: invoke.induct) (simp_all add: Let_def split: option.splits)

lemma foldl_invoke_registry [simp]:
  "zones (foldl (\<lambda>q r. invoke k r q) p rs) = zones p"
  "heap (foldl (\<lambda>q r. invoke k r q) p rs) = heap p"
  "next_addr (foldl (\<lambda>q r. invoke k r q) p rs) = next_addr p"
  by (induction rs arbitrary: p) (simp_all del: invoke.simps)

section \<open>The constructor's barrier\<close>

lemma NapaZone_ctor_pending:
  "length acks < unat (workers settings) \<Longrightarrow> NapaZone_ctor settings acks p = Blocked"
proof -
  assume len: "length acks < unat (workers settings)"
  let ?c = "next_counter p"
  let ?p2 = "p\<lparr>promise := None, counters := (counters p)(?c \<mapsto> workers settings),
                next_counter := ?c + 1\<rparr>"
  have "counts_on ?c (callOnce_NapaZone ?c)" by (simp add: counts_on_def)
  moreover have "counters ?p2 ?c = Some (workers settings)" by simp
  ultimately have "foldl (\<lambda>q r. invoke (callOnce_NapaZone ?c) r q) ?p2 acks =
      ?p2\<lparr>counters := (counters ?p2)(?c \<mapsto> workers settings - of_nat (length acks))\<rparr>"
    using len by (rule foldl_invoke_pending)
  then show ?thesis
    by (simp add: NapaZone_ctor_def Let_def del: invoke.simps)
qed

text \<open>
  A zone without workers is never constructed: nothing is scheduled, nothing acknowledges,
  and the promise stays empty. Every zone that exists has at least one worker.
\<close>

lemma NapaZone_ctor_no_workers:
  "workers settings = 0 \<Longrightarrow> NapaZone_ctor settings [] p = Blocked"
  by (simp add: NapaZone_ctor_def)


lemma NapaZone_ctor_registry:
  assumes "NapaZone_ctor settings acks p = Returned z q"
  shows "zones q = zones p" and "heap q = heap p" and "next_addr q = next_addr p"
  using assms
  by (simp_all add: NapaZone_ctor_def Let_def del: invoke.simps split: option.splits if_splits)
     (auto simp del: invoke.simps)

section \<open>Creating zones\<close>

lemma Create_live: "live (id' settings) p \<Longrightarrow> Create settings acks p = Returned None p"
  by (simp add: Create_def live_def)

lemma Create_free:
  assumes "\<not> live (id' settings) p"
  shows "Create settings acks p =
     (case NapaZone_ctor settings acks p of
        Blocked \<Rightarrow> Blocked
      | Aborted \<Rightarrow> Aborted
      | Returned z q \<Rightarrow>
          Returned (Some (next_addr p))
            (q\<lparr>heap := (heap p)(next_addr p \<mapsto> \<lparr>use_count = 1, obj = z\<rparr>),
               next_addr := next_addr p + 1,
               zones := (zones p)(id' settings \<mapsto> next_addr p)\<rparr>))"
  using assms
  by (auto simp: Create_def live_def Let_def NapaZone_ctor_registry
      split: outcome.splits option.splits)





text \<open>
  C9. When a live zone with the id of the settings exists, \<open>Create\<close> returns the null
  handle and leaves the whole state as it was: the registry still maps the id to the same
  live zone, the heap holds no new zone, and the constructor has not run (no counter was
  allocated and no promise set), whatever the workers would have answered.
\<close>

theorem Create_exists_no_effect:
  "zones p (id' settings) = Some w \<Longrightarrow> \<not> expired (heap p) w \<Longrightarrow>
   Create settings acks p = Returned None p"
  by (simp add: Create_def)

theorem Create_exists_no_effect_witness:
  "zones with_A (id' zone_A) = Some 0 \<and> \<not> expired (heap with_A) 0 \<and>
   Create zone_A [r_failed] with_A = Returned None with_A"
proof -
  have z: "zones with_A (id' zone_A) = Some 0"
    by (simp add: example_defs)
  have e: "\<not> expired (heap with_A) 0"
    by (simp add: example_defs)
  show ?thesis
    using z e Create_exists_no_effect [OF z e, of "[r_failed]"] by simp
qed

text \<open>
  C2. The constructor does wait for every worker: with fewer acknowledgements than workers
  it never returns (\<open>NapaZone_ctor_pending\<close>). But of the results only the one that
  arrives last reaches the promise (\<open>NapaZone_ctor_acked\<close>), so a bootstrap that fails on
  a worker which is not the last to finish goes unnoticed. Here the first of two workers
  reports an execution error and the second reports success: \<open>Create\<close> returns a zone,
  in the very state that two successful bootstraps leave.
\<close>

theorem Create_early_bootstrap_failure:
  "code r_failed \<noteq> NAPA_RESULT_SUCCESS \<and>
   Create zone_A [r_failed, r_ok] (initial ''boot.js'') = Returned (Some 0) with_A \<and>
   Create zone_A [r_ok, r_ok] (initial ''boot.js'') = Returned (Some 0) with_A"
  by (simp add: example_defs)

section \<open>Looking zones up\<close>

lemma lock_expired: "expired h w \<Longrightarrow> lock w h = (None, h)"
  by (auto simp: lock_def expired_def split: option.splits)

lemma lock_live:
  "\<not> expired h w \<Longrightarrow>
   \<exists>c. h w = Some c \<and> lock w h = (Some w, h(w \<mapsto> c\<lparr>use_count := use_count c + 1\<rparr>))"
  by (auto simp: lock_def expired_def split: option.splits)

text \<open>
  C6. \<open>Get\<close> on an id without an entry returns the null handle and changes nothing. On
  an entry whose zone has been destroyed it returns the null handle and erases that entry,
  and nothing else changes. On a live entry it returns the registered zone and the
  registry is untouched; the handle it returns is one more strong reference to the zone,
  which is all that happens to the heap.
\<close>

theorem Get_lookup:
  "(zones p k = None \<longrightarrow> Get k p = (None, p)) \<and>
   (\<forall>w. zones p k = Some w \<and> expired (heap p) w \<longrightarrow>
        Get k p = (None, p\<lparr>zones := (zones p)(k := None)\<rparr>)) \<and>
   (\<forall>w. zones p k = Some w \<and> \<not> expired (heap p) w \<longrightarrow>
        (\<exists>c. heap p w = Some c \<and>
             Get k p = (Some w, p\<lparr>heap := (heap p)(w \<mapsto> c\<lparr>use_count := use_count c + 1\<rparr>)\<rparr>)))"
proof (intro conjI allI impI)
  assume "zones p k = None"
  then show "Get k p = (None, p)" by (simp add: Get_def)
next
  fix w assume "zones p k = Some w \<and> expired (heap p) w"
  then show "Get k p = (None, p\<lparr>zones := (zones p)(k := None)\<rparr>)"
    by (simp add: Get_def lock_expired)
next
  fix w assume a: "zones p k = Some w \<and> \<not> expired (heap p) w"
  then obtain c where "heap p w = Some c"
    and "lock w (heap p) = (Some w, (heap p)(w \<mapsto> c\<lparr>use_count := use_count c + 1\<rparr>))"
    using lock_live by blast
  with a show "\<exists>c. heap p w = Some c \<and>
      Get k p = (Some w, p\<lparr>heap := (heap p)(w \<mapsto> c\<lparr>use_count := use_count c + 1\<rparr>)\<rparr>)"
    by (simp add: Get_def)
qed

theorem Get_lookup_witness:
  "Get ''A'' (initial ''boot.js'') = (None, initial ''boot.js'') \<and>
   Get ''A'' (release 0 with_A) =
     (None, (release 0 with_A)\<lparr>zones := (zones (release 0 with_A))(''A'' := None)\<rparr>) \<and>
   fst (Get ''A'' with_A) = Some 0 \<and> zones (snd (Get ''A'' with_A)) = zones with_A"
proof -
  have none: "zones (initial ''boot.js'') ''A'' = None"
    by (simp add: initial_def)
  have stale: "zones (release 0 with_A) ''A'' = Some 0 \<and> expired (heap (release 0 with_A)) 0"
    by (simp add: example_defs release_def)
  have alive: "zones with_A ''A'' = Some 0 \<and> \<not> expired (heap with_A) 0"
    by (simp add: example_defs)
  show ?thesis
    using none stale alive Get_lookup [of "initial ''boot.js''" "''A''"]
      Get_lookup [of "release 0 with_A" "''A''"] Get_lookup [of with_A "''A''"]
    by auto
qed

lemma Get_fst: "fst (Get k p) = (if live k p then zones p k else None)"
  by (auto simp: Get_def live_def lock_def expired_def split: option.splits)

lemma Get_zones:
  "zones (snd (Get k p)) =
     (if live k p \<or> zones p k = None then zones p else (zones p)(k := None))"
  by (auto simp: Get_def live_def lock_def expired_def split: option.splits)

lemma Get_expired [simp]: "expired (heap (snd (Get k p))) a = expired (heap p) a"
  by (auto simp: Get_def lock_def expired_def split: option.splits)

lemma Get_next_addr [simp]: "next_addr (snd (Get k p)) = next_addr p"
  by (auto simp: Get_def lock_def split: option.splits)

section \<open>Dropping references\<close>

lemma release_zones [simp]: "zones (release a p) = zones p"
  by (simp add: release_def split: option.splits)

lemma release_next_addr [simp]: "next_addr (release a p) = next_addr p"
  by (simp add: release_def split: option.splits)

lemma release_expired: "expired (heap p) a \<Longrightarrow> expired (heap (release b p)) a"
  by (auto simp: release_def expired_def split: option.splits)


section \<open>A registered zone stays registered while it lives\<close>

lemma Create_keeps:
  assumes "keeps k a p" and "Create settings acks p = Returned zone q"
  shows "keeps k a q"
proof (cases "live (id' settings) p")
  case True
  with assms show ?thesis by (simp add: Create_live)
next
  case False
  from assms(1) have below: "a < next_addr p" by (simp add: keeps_def)
  from False assms(2) obtain z q' where ctor: "NapaZone_ctor settings acks p = Returned z q'"
    and q: "q = q'\<lparr>heap := (heap p)(next_addr p \<mapsto> \<lparr>use_count = 1, obj = z\<rparr>),
               next_addr := next_addr p + 1,
               zones := (zones p)(id' settings \<mapsto> next_addr p)\<rparr>"
    by (auto simp: Create_free split: outcome.splits)
  from q below have same: "expired (heap q) a = expired (heap p) a"
    by (simp add: expired_def)
  show ?thesis
  proof (cases "expired (heap p) a")
    case True
    with same below q show ?thesis by (simp add: keeps_def)
  next
    case live_a: False
    with assms(1) have reg: "zones p k = Some a" by (simp add: keeps_def)
    with live_a False have "id' settings \<noteq> k" by (auto simp: live_def)
    with reg q below show ?thesis by (simp add: keeps_def)
  qed
qed

lemma Get_keeps:
  assumes "keeps k a p"
  shows "keeps k a (snd (Get k' p))"
  using assms by (auto simp: keeps_def Get_zones live_def)

lemma release_keeps:
  assumes "keeps k a p"
  shows "keeps k a (release b p)"
  using assms by (auto simp: keeps_def release_expired)

lemma step_keeps: "keeps k a p \<Longrightarrow> step c p = Some q \<Longrightarrow> keeps k a q"
  by (cases c) (auto simp: Get_keeps release_keeps split: outcome.splits dest: Create_keeps)

lemma run_keeps: "keeps k a p \<Longrightarrow> run cs p = Some q \<Longrightarrow> keeps k a q"
proof (induction cs arbitrary: p)
  case Nil
  then show ?case by simp
next
  case (Cons c cs)
  then show ?case by (auto split: option.splits dest: step_keeps)
qed

lemma Create_establishes:
  assumes "Create settings acks p = Returned (Some zone) q"
  shows "keeps (id' settings) zone q"
proof -
  from assms have free: "\<not> live (id' settings) p"
    by (auto simp: Create_live)
  with assms show ?thesis
    by (auto simp: Create_free keeps_def split: outcome.splits)
qed

text \<open>
  C4. After \<open>Create\<close> has returned a handle for the settings, and after any further calls
  of \<open>Create\<close>, \<open>Get\<close> and reference drops that the process survives, \<open>Get\<close> on the id
  of the settings returns that same handle, as long as the zone still has a strong
  reference (which it has while the one returned by \<open>Create\<close> is held).
\<close>

theorem Get_after_Create:
  assumes "Create settings acks p = Returned (Some zone) q"
    and "run cs q = Some q'"
    and "\<not> expired (heap q') zone"
  shows "fst (Get (id' settings) q') = Some zone"
proof -
  from assms(1) have "keeps (id' settings) zone q" by (rule Create_establishes)
  then have "keeps (id' settings) zone q'" using assms(2) by (rule run_keeps)
  with assms(3) have "zones q' (id' settings) = Some zone" by (simp add: keeps_def)
  with assms(3) show ?thesis by (simp add: Get_fst live_def)
qed

theorem Get_after_Create_witness:
  "Create zone_A [r_ok, r_ok] (initial ''boot.js'') = Returned (Some 0) with_A \<and>
   run busy_calls with_A = Some after_calls \<and>
   \<not> expired (heap after_calls) 0 \<and>
   fst (Get (id' zone_A) after_calls) = Some 0"
proof -
  have made: "Create zone_A [r_ok, r_ok] (initial ''boot.js'') = Returned (Some 0) with_A"
    by (simp add: example_defs)
  have ran: "run busy_calls with_A = Some after_calls"
    by (simp add: after_calls_def busy_calls_def example_defs Get_def lock_def release_def)
  have held: "\<not> expired (heap after_calls) 0"
    by (simp add: after_calls_def busy_calls_def example_defs Get_def lock_def release_def)
  show ?thesis
    using made ran held Get_after_Create [OF made ran held] by simp
qed

section \<open>Creating a zone again\<close>





section \<open>Broadcast and Execute\<close>

lemma word_succ_unat: "(i :: 32 word) < n \<Longrightarrow> unat (i + 1) = Suc (unat i)"
proof -
  assume less: "i < n"
  then have "unat i < unat n"
    by (simp add: word_less_nat_alt)
  moreover have "unat n < 2 ^ 32"
    using unsigned_less [of n, where 'a = nat] by simp
  moreover have "unat (i + 1) = (unat i + 1) mod 2 ^ 32"
    by (simp add: unat_word_ariths)
  ultimately show ?thesis by simp
qed

text \<open>The loop appends one \<open>ScheduleOnWorker\<close> call for each id from \<open>i\<close> up to \<open>n\<close>.\<close>

lemma Broadcast_loop_calls:
  "Broadcast_loop spc k n i sch =
     sch @ map (\<lambda>j. ScheduleOnWorker (of_nat j) (call_task spc k)) [unat i..<unat n]"
proof (induction spc k n i sch rule: Broadcast_loop.induct)
  case (1 spc k n i sch)
  show ?case
  proof (cases "i < n")
    case True
    then have below: "unat i < unat n" by (simp add: word_less_nat_alt)
    have succ: "unat (i + 1) = Suc (unat i)" using True by (rule word_succ_unat)
    have "Broadcast_loop spc k n i sch =
        Broadcast_loop spc k n (i + 1) (sch @ [ScheduleOnWorker i (call_task spc k)])"
      using True by (subst Broadcast_loop.simps) (simp add: call_task_def Let_def)
    also have "\<dots> = (sch @ [ScheduleOnWorker i (call_task spc k)]) @
        map (\<lambda>j. ScheduleOnWorker (of_nat j) (call_task spc k)) [unat (i + 1)..<unat n]"
      using True "1.IH" [OF True refl] by (simp add: call_task_def)
    also have "\<dots> = sch @
        map (\<lambda>j. ScheduleOnWorker (of_nat j) (call_task spc k)) [unat i..<unat n]"
      using below succ by (simp add: upt_conv_Cons)
    finally show ?thesis .
  next
    case False
    then have "unat n \<le> unat i" by (simp add: word_less_nat_alt)
    with False show ?thesis by (subst Broadcast_loop.simps) simp
  qed
qed

lemma Broadcast_eq:
  "Broadcast spc cb z p =
     (z\<lparr>z_scheduler := z_scheduler z @
          map (\<lambda>j. ScheduleOnWorker (of_nat j)
                 (call_task spc (callOnce_Broadcast (next_counter p) cb)))
            [0..<unat (workers (z_settings z))]\<rparr>,
      p\<lparr>counters := (counters p)(next_counter p \<mapsto> workers (z_settings z)),
        next_counter := next_counter p + 1\<rparr>)"
  by (simp add: Broadcast_def Let_def Broadcast_loop_calls)

lemma queue_of_append: "queue_of i (xs @ ys) = queue_of i xs @ queue_of i ys"
  by (induction i xs rule: queue_of.induct) simp_all

lemma queue_of_fan_out:
  "m \<le> 2 ^ 32 \<Longrightarrow>
   queue_of (i :: 32 word) (map (\<lambda>j. ScheduleOnWorker (of_nat j) t) [0..<m]) =
     (if unat i < m then [t] else [])"
proof (induction m)
  case 0
  then show ?case by simp
next
  case (Suc m)
  then have m: "m < 2 ^ 32" by simp
  then have "unat (of_nat m :: 32 word) = m"
    by (simp add: unat_of_nat)
  then have "(i = of_nat m) = (unat i = m)"
    by (auto simp: word_unat_eq_iff)
  with Suc show ?case
    by (auto simp: queue_of_append)
qed

lemma queue_of_Broadcast:
  "queue_of i (map (\<lambda>j. ScheduleOnWorker (of_nat j) t) [0..<unat (n :: 32 word)]) =
     (if i < n then [t] else [])"
proof -
  have "unat n \<le> 2 ^ 32"
    using unsigned_less [of n, where 'a = nat] by simp
  then show ?thesis
    by (simp add: queue_of_fan_out word_less_nat_alt)
qed

text \<open>
  C7. \<open>Broadcast\<close> on a zone with \<open>n\<close> workers allocates one counter, initialised to
  \<open>n\<close>, and appends \<open>n\<close> calls to the scheduler, \<open>ScheduleOnWorker\<close> for the worker ids
  0, 1, ... below \<open>n\<close> in this order. Every task carries a call context made of the spec
  and of the \<open>callOnce\<close> closure over that one counter and the caller's callback; it is
  wrapped in a timeout decorator exactly when the timeout of the spec is positive. The
  queue of each worker below \<open>n\<close> receives exactly one task, that of any other id none.
\<close>

theorem Broadcast_fan_out:
  "let c = next_counter p;
       n = workers (z_settings z);
       ctx = \<lparr>spec = spc, callback = callOnce_Broadcast c cb\<rparr>;
       task = (if 0 < timeout (options spc)
               then TimeoutTaskDecorator (timeout (options spc)) (CallTask ctx)
               else CallTask ctx);
       new = map (\<lambda>j. ScheduleOnWorker (of_nat j) task) [0..<unat n]
   in Broadcast spc cb z p =
        (z\<lparr>z_scheduler := z_scheduler z @ new\<rparr>,
         p\<lparr>counters := (counters p)(c \<mapsto> n), next_counter := c + 1\<rparr>) \<and>
      length new = unat n \<and>
      queue_of i new = (if i < n then [task] else []) \<and>
      context_of task = Some ctx \<and>
      decorated task = (0 < timeout (options spc))"
  using queue_of_Broadcast
    [of i "call_task spc (callOnce_Broadcast (next_counter p) cb)" "workers (z_settings z)"]
  by (simp add: Let_def Broadcast_eq call_task_def)

theorem Broadcast_fan_out_witness:
  "Broadcast echo (UserCallback 7) the_zone (initial ''boot.js'') =
     (the_zone\<lparr>z_scheduler :=
        [ScheduleOnWorker 0
           (TimeoutTaskDecorator 50
              (CallTask \<lparr>spec = echo, callback = callOnce_Broadcast 0 (UserCallback 7)\<rparr>)),
         ScheduleOnWorker 1
           (TimeoutTaskDecorator 50
              (CallTask \<lparr>spec = echo, callback = callOnce_Broadcast 0 (UserCallback 7)\<rparr>))]\<rparr>,
      (initial ''boot.js'')\<lparr>counters := [0 \<mapsto> 2], next_counter := 1\<rparr>)"
proof -
  have ids: "[0..<unat (2 :: 32 word)] = [0, 1]"
    by (simp add: upt_rec)
  have late: "timeout (options echo) = 50"
    by (simp add: echo_def)
  show ?thesis
    using Broadcast_fan_out [of "initial ''boot.js''" the_zone echo "UserCallback 7" 0] ids late
    by (simp add: Let_def the_zone_def zone_A_def initial_def)
qed

text \<open>
  C8. \<open>Execute\<close> builds one call context from the spec and the callback, wraps the call
  task in a timeout decorator exactly when the timeout of the spec is positive, and hands
  it to the scheduler in a single \<open>Schedule\<close> call, the only call it adds.
\<close>

theorem Execute_schedules_once:
  "let ctx = \<lparr>spec = spc, callback = cb\<rparr>;
       task = (if 0 < timeout (options spc)
               then TimeoutTaskDecorator (timeout (options spc)) (CallTask ctx)
               else CallTask ctx)
   in Execute spc cb z = z\<lparr>z_scheduler := z_scheduler z @ [Schedule task]\<rparr> \<and>
      length (z_scheduler (Execute spc cb z)) = Suc (length (z_scheduler z)) \<and>
      context_of task = Some ctx \<and>
      decorated task = (0 < timeout (options spc))"
  by (simp add: Execute_def Let_def)

theorem Execute_schedules_once_witness:
  "Execute echo (UserCallback 7) the_zone =
     the_zone\<lparr>z_scheduler :=
       [Schedule (TimeoutTaskDecorator 50
          (CallTask \<lparr>spec = echo, callback = UserCallback 7\<rparr>))]\<rparr> \<and>
   Execute (echo\<lparr>options := \<lparr>timeout = 0\<rparr>\<rparr>) (UserCallback 7) the_zone =
     the_zone\<lparr>z_scheduler :=
       [Schedule (CallTask \<lparr>spec = echo\<lparr>options := \<lparr>timeout = 0\<rparr>\<rparr>,
                            callback = UserCallback 7\<rparr>)]\<rparr>"
proof -
  have late: "timeout (options echo) = 50"
    by (simp add: echo_def)
  show ?thesis
    using Execute_schedules_once [of echo "UserCallback 7" the_zone]
      Execute_schedules_once [of "echo\<lparr>options := \<lparr>timeout = 0\<rparr>\<rparr>" "UserCallback 7" the_zone]
      late
    by (simp add: Let_def the_zone_def)
qed

section \<open>The callback of a broadcast\<close>

lemma complete_call_task [simp]: "complete (call_task spc k) r p = invoke k r p"
  by (simp add: call_task_def)

lemma run_completions_single:
  "list_all (\<lambda>(i, r). queue_of i sch = [t]) cs \<Longrightarrow>
   run_completions cs sch p = foldl (\<lambda>q r. complete t r q) p (map snd cs)"
  by (induction cs arbitrary: p) (auto simp del: complete.simps)

lemma run_completions_Broadcast:
  assumes "list_all (\<lambda>(i, r). i < n) cs"
  shows "run_completions cs
           (map (\<lambda>j. ScheduleOnWorker (of_nat j) (call_task spc k)) [0..<unat n]) p =
         foldl (\<lambda>q r. invoke k r q) p (map snd cs)"
proof -
  from assms have "list_all (\<lambda>(i, r).
      queue_of i (map (\<lambda>j. ScheduleOnWorker (of_nat j) (call_task spc k)) [0..<unat n]) =
        [call_task spc k]) cs"
    by (induction cs) (auto simp: queue_of_Broadcast)
  then show ?thesis
    by (simp add: run_completions_single del: invoke.simps)
qed

text \<open>
  C1. A zone has \<open>n\<close> workers, \<open>n\<close> not zero, and a caller broadcasts with the callback
  \<open>u\<close>. The \<open>n\<close> tasks end in any order, each worker's once, with any results. When all
  but the last have ended the callback has not run; when all have ended it has run
  exactly once, with the result of the task that ended last.
\<close>

theorem Broadcast_callback_once:
  assumes nz: "workers (z_settings z) \<noteq> 0"
    and len: "length cs = unat (workers (z_settings z))"
    and dist: "distinct (map fst cs)"
    and ids: "list_all (\<lambda>(i, r). i < workers (z_settings z)) cs"
  shows "let (z', p') = Broadcast spc (UserCallback u) z p;
             new = drop (length (z_scheduler z)) (z_scheduler z')
         in invoked (run_completions (butlast cs) new p') = invoked p \<and>
            invoked (run_completions cs new p') = invoked p @ [(u, snd (last cs))]"
proof -
  let ?n = "workers (z_settings z)"
  let ?c = "next_counter p"
  let ?k = "callOnce_Broadcast ?c (UserCallback u)"
  let ?new = "map (\<lambda>j. ScheduleOnWorker (of_nat j) (call_task spc ?k)) [0..<unat ?n]"
  let ?p' = "p\<lparr>counters := (counters p)(?c \<mapsto> ?n), next_counter := ?c + 1\<rparr>"
  have k: "counts_on ?c ?k" by (simp add: counts_on_def)
  have cnt: "counters ?p' ?c = Some ?n" by simp
  from nz have pos: "0 < unat ?n" by (simp add: unat_gt_0)
  with len have ne: "cs \<noteq> []" by auto
  have ids': "list_all (\<lambda>(i, r). i < ?n) (butlast cs)"
    using ids by (auto simp: list_all_iff dest: in_set_butlastD)
  have "run_completions (butlast cs) ?new ?p' =
      foldl (\<lambda>q r. invoke ?k r q) ?p' (map snd (butlast cs))"
    using ids' by (rule run_completions_Broadcast)
  also have "\<dots> =
      ?p'\<lparr>counters := (counters ?p')(?c \<mapsto> ?n - of_nat (length (map snd (butlast cs))))\<rparr>"
    using k cnt
  proof (rule foldl_invoke_pending)
    show "length (map snd (butlast cs)) < unat ?n" using len pos by simp
  qed
  finally have early: "invoked (run_completions (butlast cs) ?new ?p') = invoked p"
    by simp
  have "run_completions cs ?new ?p' = foldl (\<lambda>q r. invoke ?k r q) ?p' (map snd cs)"
    using ids by (rule run_completions_Broadcast)
  also have "\<dots> = invoke ?k (last (map snd cs)) (?p'\<lparr>counters := (counters ?p')(?c \<mapsto> 1)\<rparr>)"
    using k cnt nz
  proof (rule foldl_invoke_all)
    show "length (map snd cs) = unat ?n" using len by simp
  qed
  finally have all: "invoked (run_completions cs ?new ?p') = invoked p @ [(u, snd (last cs))]"
    using ne by (simp add: last_map)
  show ?thesis
    using early all by (simp add: Broadcast_eq)
qed

theorem Broadcast_callback_once_witness:
  "(let (z', p') = Broadcast echo (UserCallback 7) the_zone (initial ''boot.js'');
        new = drop (length (z_scheduler the_zone)) (z_scheduler z')
    in invoked (run_completions [(1, r_failed)] new p') = [] \<and>
       invoked (run_completions [(1, r_failed), (0, r_ok)] new p') = [(7, r_ok)])"
proof -
  have nz: "workers (z_settings the_zone) \<noteq> 0"
    by (simp add: the_zone_def zone_A_def)
  have len: "length [(1 :: 32 word, r_failed), (0, r_ok)] = unat (workers (z_settings the_zone))"
    by (simp add: the_zone_def zone_A_def)
  have dist: "distinct (map fst [(1 :: 32 word, r_failed), (0, r_ok)])"
    by simp
  have ids: "list_all (\<lambda>(i, r). i < workers (z_settings the_zone))
      [(1 :: 32 word, r_failed), (0, r_ok)]"
    by (simp add: the_zone_def zone_A_def)
  show ?thesis
    using Broadcast_callback_once [OF nz len dist ids, of echo 7 "initial ''boot.js''"]
    by (simp add: initial_def split_def)
qed

section \<open>Reading a serialized value\<close>

lemma transfer_loop_enumerate:
  "transfer_loop (of_nat n) cs calls =
     calls @ map (\<lambda>(k, contents). TransferSharedArrayBuffer (of_nat k)
        \<lparr>sab_data = Data (fst contents), sab_byte_length = ByteLength (fst contents),
         externalized = Some (snd contents)\<rparr>) (enumerate n cs)"
proof (induction cs arbitrary: n calls)
  case Nil
  then show ?case by simp
next
  case (Cons c cs)
  have succ: "(of_nat n :: 32 word) + 1 = of_nat (Suc n)"
    by simp
  have "transfer_loop (of_nat n) (c # cs) calls =
      transfer_loop (of_nat (Suc n)) cs
        (calls @ [TransferSharedArrayBuffer (of_nat n)
           \<lparr>sab_data = Data (fst c), sab_byte_length = ByteLength (fst c),
            externalized = Some (snd c)\<rparr>])"
    by (simp only: transfer_loop.simps Let_def succ) simp
  then show ?case
    by (simp only: Cons.IH) simp
qed

text \<open>
  C10. \<open>Deserializer::ReadValue\<close> first asks the V8 deserializer for the header. If that
  fails it returns the empty value, and \<open>ReadHeader\<close> is the only call the deserializer has
  received: no buffer was transferred and the body was not read. Otherwise the deserializer
  receives, after \<open>ReadHeader\<close>, one \<open>TransferSharedArrayBuffer\<close> for each stored contents
  entry, in the stored order, with the 32-bit indices 0, 1, 2, ..., each with a buffer
  made of the entry's data and length and carrying its externalized contents; then
  \<open>ReadValue\<close>, whose answer is returned.
\<close>

theorem Deserializer_ReadValue_order:
  "Deserializer_ReadValue header body data calls =
     (case header of
        None \<Rightarrow> (None, calls @ [ReadHeader])
      | Some read_header \<Rightarrow>
          (body,
           calls @ [ReadHeader] @
           map (\<lambda>(k, contents). TransferSharedArrayBuffer (of_nat k)
              \<lparr>sab_data = Data (fst contents), sab_byte_length = ByteLength (fst contents),
               externalized = Some (snd contents)\<rparr>)
             (enumerate 0 (shared_array_buffer_contents data)) @
           [ReadValue]))"
  using transfer_loop_enumerate [of 0 "shared_array_buffer_contents data" "calls @ [ReadHeader]"]
  by (simp add: Deserializer_ReadValue_def Let_def split: option.splits)

theorem Deserializer_ReadValue_order_witness:
  "Deserializer_ReadValue None (Some (42 :: nat))
     \<lparr>shared_array_buffer_contents =
        [(\<lparr>Data = 4096, ByteLength = 4\<rparr>, 11), (\<lparr>Data = 8192, ByteLength = 16\<rparr>, 12)]\<rparr> [] =
     (None, [ReadHeader]) \<and>
   Deserializer_ReadValue (Some True) (Some (42 :: nat))
     \<lparr>shared_array_buffer_contents =
        [(\<lparr>Data = 4096, ByteLength = 4\<rparr>, 11), (\<lparr>Data = 8192, ByteLength = 16\<rparr>, 12)]\<rparr> [] =
     (Some 42,
      [ReadHeader,
       TransferSharedArrayBuffer 0
         \<lparr>sab_data = 4096, sab_byte_length = 4, externalized = Some 11\<rparr>,
       TransferSharedArrayBuffer 1
         \<lparr>sab_data = 8192, sab_byte_length = 16, externalized = Some 12\<rparr>,
       ReadValue])"
  using Deserializer_ReadValue_order
      [of None "Some (42 :: nat)"
        "\<lparr>shared_array_buffer_contents =
           [(\<lparr>Data = 4096, ByteLength = 4\<rparr>, 11), (\<lparr>Data = 8192, ByteLength = 16\<rparr>, 12)]\<rparr>" "[]"]
    Deserializer_ReadValue_order
      [of "Some True" "Some (42 :: nat)"
        "\<lparr>shared_array_buffer_contents =
           [(\<lparr>Data = 4096, ByteLength = 4\<rparr>, 11), (\<lparr>Data = 8192, ByteLength = 16\<rparr>, 12)]\<rparr>" "[]"]
  by (simp add: enumerate_eq_zip upt_rec)

end
